theory Spec2Isabelle
  imports Main "HOL-Library.Word"
begin

section \<open>Machine integers and undefined behaviour\<close>

text \<open>
  The native layer is C. An \<open>int\<close> is a 32-bit two's complement value, read with
  \<open>sint\<close>. Every operation whose behaviour the C standard leaves undefined is a branch of
  the model that stops with a \<open>fault\<close>: signed overflow of \<open>++\<close>, an access through a
  null, unallocated or released pointer, a read of a field that was never written, a
  \<open>free\<close> of storage that \<open>malloc\<close> did not hand out or that was released before, and
  a read past the end of a buffer.
\<close>

type_synonym cint = "32 word"

definition INT_MAX :: int where
  "INT_MAX = 2147483647"

datatype fault =
    SignedOverflow
  | NullDereference
  | WildPointer
  | UseAfterFree
  | UninitialisedRead
  | InvalidFree
  | DoubleFree
  | ReadPastEnd

text \<open>
  A computation takes the state and returns a value or a fault, together with the state
  reached: at a fault this is the state at the moment execution stopped, so that the
  effects performed before the fault stay visible.
\<close>

type_synonym ('s, 'a) prog = "'s \<Rightarrow> (fault + 'a) \<times> 's"

definition ret :: "'a \<Rightarrow> ('s, 'a) prog" where
  "ret v s = (Inr v, s)"

definition trap :: "fault \<Rightarrow> ('s, 'a) prog" where
  "trap f s = (Inl f, s)"

definition bnd :: "('s, 'a) prog \<Rightarrow> ('a \<Rightarrow> ('s, 'b) prog) \<Rightarrow> ('s, 'b) prog" where
  "bnd m k s = (case m s of (Inl f, s') \<Rightarrow> (Inl f, s') | (Inr v, s') \<Rightarrow> k v s')"

text \<open>The value of \<open>v + 1\<close> on an \<open>int\<close>: undefined at \<open>INT_MAX\<close>.\<close>

definition incr :: "cint \<Rightarrow> ('s, cint) prog" where
  "incr v = (if sint v = INT_MAX then trap SignedOverflow else ret (v + 1))"

section \<open>Data model of Point.c\<close>

text \<open>
  Modelled from the spec: the header \<open>Point.h\<close> is not among the sources. The spec's
  struct layout contract gives \<open>Point\<close> as two fixed-width signed integers, \<open>x\<close> then
  \<open>y\<close>, and the code reads and writes exactly these two \<open>int\<close> fields.
\<close>

record Point =
  x :: cint
  y :: cint

text \<open>
  Addresses are numbers and \<open>NULL\<close> is 0. The store maps an address to the block of
  \<open>Point\<close> storage that starts there: who provided it (\<open>malloc\<close>, or the caller as in
  \<open>&p\<close>), whether it is still live, and its two fields, \<open>None\<close> while never written.
\<close>

type_synonym addr = nat

definition NULL :: addr where
  "NULL = 0"

datatype origin = Malloced | CallerOwned

record block =
  origin :: origin
  live :: bool
  fld_x :: "cint option"
  fld_y :: "cint option"

text \<open>A call of \<open>printf\<close> is recorded with its format string and its arguments.\<close>

datatype arg = D cint | P addr

type_synonym event = "string \<times> arg list"

text \<open>
  The state of the process: the static \<open>counter\<close>, the store, the standard output, and
  the results the C library's allocator is going to return for the coming calls of
  \<open>malloc\<close> (0, or nothing left, stands for an allocation that fails).
\<close>

record state =
  counter :: cint
  heap :: "addr \<Rightarrow> block option"
  allocator :: "addr list"
  stdout :: "event list"

text \<open>\<open>static int counter = 0;\<close> and nothing allocated or printed yet.\<close>

definition initial_state :: "addr list \<Rightarrow> state" where
  "initial_state pool = \<lparr>counter = 0, heap = (\<lambda>a. None), allocator = pool, stdout = []\<rparr>"

subsection \<open>The C library: printf, malloc, free\<close>

definition printf :: "string \<Rightarrow> arg list \<Rightarrow> (state, unit) prog" where
  "printf fmt args s = (Inr (), s\<lparr>stdout := stdout s @ [(fmt, args)]\<rparr>)"

definition malloc :: "(state, addr) prog" where
  "malloc s =
     (case allocator s of
        [] \<Rightarrow> (Inr NULL, s)
      | a # rest \<Rightarrow>
          if a = NULL then (Inr NULL, s\<lparr>allocator := rest\<rparr>)
          else (Inr a, s\<lparr>allocator := rest,
                  heap := (heap s)(a \<mapsto>
                    \<lparr>origin = Malloced, live = True, fld_x = None, fld_y = None\<rparr>)\<rparr>))"

definition free :: "addr \<Rightarrow> (state, unit) prog" where
  "free a s =
     (if a = NULL then (Inr (), s)
      else case heap s a of
        None \<Rightarrow> (Inl InvalidFree, s)
      | Some b \<Rightarrow>
          if origin b \<noteq> Malloced then (Inl InvalidFree, s)
          else if \<not> live b then (Inl DoubleFree, s)
          else (Inr (), s\<lparr>heap := (heap s)(a \<mapsto> b\<lparr>live := False\<rparr>)\<rparr>))"

subsection \<open>Access through a pointer\<close>

definition access :: "addr \<Rightarrow> (state, block) prog" where
  "access a s =
     (if a = NULL then (Inl NullDereference, s)
      else case heap s a of
        None \<Rightarrow> (Inl WildPointer, s)
      | Some b \<Rightarrow> if live b then (Inr b, s) else (Inl UseAfterFree, s))"

text \<open>\<open>point->x\<close> and \<open>point->y\<close> as values.\<close>

definition load_x :: "addr \<Rightarrow> (state, cint) prog" where
  "load_x a = bnd (access a) (\<lambda>b.
     case fld_x b of None \<Rightarrow> trap UninitialisedRead | Some v \<Rightarrow> ret v)"

definition load_y :: "addr \<Rightarrow> (state, cint) prog" where
  "load_y a = bnd (access a) (\<lambda>b.
     case fld_y b of None \<Rightarrow> trap UninitialisedRead | Some v \<Rightarrow> ret v)"

text \<open>\<open>point->x = v\<close> and \<open>point->y = v\<close>.\<close>

definition store_x :: "addr \<Rightarrow> cint \<Rightarrow> (state, unit) prog" where
  "store_x a v = bnd (access a) (\<lambda>b s.
     (Inr (), s\<lparr>heap := (heap s)(a \<mapsto> b\<lparr>fld_x := Some v\<rparr>)\<rparr>))"

definition store_y :: "addr \<Rightarrow> cint \<Rightarrow> (state, unit) prog" where
  "store_y a v = bnd (access a) (\<lambda>b s.
     (Inr (), s\<lparr>heap := (heap s)(a \<mapsto> b\<lparr>fld_y := Some v\<rparr>)\<rparr>))"

text \<open>\<open>counter++\<close>: the value before the increment; the increment overflows at \<open>INT_MAX\<close>.\<close>

definition counter_postinc :: "(state, cint) prog" where
  "counter_postinc s =
     (if sint (counter s) = INT_MAX then (Inl SignedOverflow, s)
      else (Inr (counter s), s\<lparr>counter := counter s + 1\<rparr>))"

section \<open>The functions of Point.c\<close>

definition fmt_point :: string where
  "fmt_point = ''Point in C      is (%d, %d)\<newline>''"

definition fmt_new_point :: string where
  "fmt_new_point = ''New point in C  is (%d, %d)\<newline>''"

definition fmt_returning :: string where
  "fmt_returning = ''Returning Point    (%d, %d)\<newline>''"

definition fmt_returning_at :: string where
  "fmt_returning_at = ''Returning Point    (%d, %d) at %p\<newline>''"

definition fmt_freeing :: string where
  "fmt_freeing = ''Freeing Point      (%d, %d) at %p\<newline>''"

text \<open>\<open>void showPoint(Point point)\<close>\<close>

definition showPoint :: "Point \<Rightarrow> (state, unit) prog" where
  "showPoint point = printf fmt_point [D (x point), D (y point)]"

text \<open>\<open>void showPointRef(Point *point)\<close>\<close>

definition showPointRef :: "addr \<Rightarrow> (state, unit) prog" where
  "showPointRef point =
     bnd (load_x point) (\<lambda>vx.
     bnd (load_y point) (\<lambda>vy.
     printf fmt_point [D vx, D vy]))"

text \<open>
  \<open>void movePoint(Point point)\<close>: the parameter is the callee's own copy of the
  argument. \<open>point.x++\<close> and \<open>point.y++\<close> update that copy; the function returns
  nothing, so the copy is gone when it returns.
\<close>

definition local_incr_x :: "Point \<Rightarrow> ('s, Point) prog" where
  "local_incr_x point = bnd (incr (x point)) (\<lambda>v. ret (point\<lparr>x := v\<rparr>))"

definition local_incr_y :: "Point \<Rightarrow> ('s, Point) prog" where
  "local_incr_y point = bnd (incr (y point)) (\<lambda>v. ret (point\<lparr>y := v\<rparr>))"

definition movePoint :: "Point \<Rightarrow> (state, unit) prog" where
  "movePoint point =
     bnd (printf fmt_point [D (x point), D (y point)]) (\<lambda>_.
     bnd (local_incr_x point) (\<lambda>point1.
     bnd (local_incr_y point1) (\<lambda>point2.
     printf fmt_point [D (x point2), D (y point2)])))"

text \<open>\<open>point->x++\<close> and \<open>point->y++\<close>: read, increment, write back.\<close>

definition incr_x :: "addr \<Rightarrow> (state, unit) prog" where
  "incr_x a = bnd (load_x a) (\<lambda>v. bnd (incr v) (\<lambda>w. store_x a w))"

definition incr_y :: "addr \<Rightarrow> (state, unit) prog" where
  "incr_y a = bnd (load_y a) (\<lambda>v. bnd (incr v) (\<lambda>w. store_y a w))"

text \<open>\<open>void movePointRef(Point *point)\<close>\<close>

definition movePointRef :: "addr \<Rightarrow> (state, unit) prog" where
  "movePointRef point =
     bnd (load_x point) (\<lambda>vx.
     bnd (load_y point) (\<lambda>vy.
     bnd (printf fmt_point [D vx, D vy]) (\<lambda>_.
     bnd (incr_x point) (\<lambda>_.
     bnd (incr_y point) (\<lambda>_.
     bnd (load_x point) (\<lambda>wx.
     bnd (load_y point) (\<lambda>wy.
     printf fmt_new_point [D wx, D wy])))))))"

text \<open>
  \<open>Point getPoint(void)\<close>. The initialiser \<open>{ counter++, counter++ }\<close> is evaluated in
  the order it is written, first the value for \<open>x\<close>, then the value for \<open>y\<close>.
\<close>

definition getPoint :: "(state, Point) prog" where
  "getPoint =
     bnd counter_postinc (\<lambda>c0.
     bnd counter_postinc (\<lambda>c1.
     bnd (printf fmt_returning [D c0, D c1]) (\<lambda>_.
     ret \<lparr>x = c0, y = c1\<rparr>)))"

text \<open>
  \<open>Point* getPointPointer(void)\<close>. The result of \<open>malloc\<close> is not checked, so the first
  assignment is an access through a null pointer when the allocation failed.
\<close>

definition getPointPointer :: "(state, addr) prog" where
  "getPointPointer =
     bnd malloc (\<lambda>point.
     bnd counter_postinc (\<lambda>c0.
     bnd (store_x point c0) (\<lambda>_.
     bnd counter_postinc (\<lambda>c1.
     bnd (store_y point c1) (\<lambda>_.
     bnd (load_x point) (\<lambda>vx.
     bnd (load_y point) (\<lambda>vy.
     bnd (printf fmt_returning_at [D vx, D vy, P point]) (\<lambda>_.
     ret point))))))))"

text \<open>\<open>void freePointPointer(Point *point)\<close>: both fields are read for the message, then
  the storage is released.\<close>

definition freePointPointer :: "addr \<Rightarrow> (state, unit) prog" where
  "freePointPointer point =
     bnd (load_x point) (\<lambda>vx.
     bnd (load_y point) (\<lambda>vy.
     bnd (printf fmt_freeing [D vx, D vy, P point]) (\<lambda>_.
     free point)))"

section \<open>The string example of ctypes.md\<close>

type_synonym byte = "8 word"

text \<open>
  The C library's \<open>strlen\<close> on a buffer given by its bytes: the index of the first
  zero byte. A buffer without one makes \<open>strlen\<close> read past its end.
\<close>

fun strlen :: "byte list \<Rightarrow> nat option" where
  "strlen [] = None"
| "strlen (b # bs) = (if b = 0 then Some 0 else map_option Suc (strlen bs))"

text \<open>
  \<open>for (; ii < strlen(input); ii++) { input[ii]++; }\<close> from the value \<open>ii\<close> on.
  The length is taken again before every round, from the buffer as the rounds before
  have left it. \<open>input[ii]++\<close> on a \<open>char\<close> wraps around in 8 bits; \<open>ii++\<close> on
  the \<open>int\<close> index overflows at \<open>INT_MAX\<close>.
\<close>

function add_one_loop :: "nat \<Rightarrow> (byte list, unit) prog" where
  "add_one_loop ii input =
     (case strlen input of
        None \<Rightarrow> (Inl ReadPastEnd, input)
      | Some n \<Rightarrow>
          if ii < n then
            (if int ii = INT_MAX then (Inl SignedOverflow, input[ii := input ! ii + 1])
             else add_one_loop (Suc ii) (input[ii := input ! ii + 1]))
          else (Inr (), input))"
  by pat_completeness auto

termination
proof (relation "measure (\<lambda>(ii, input). length input - ii)")
  show "wf (measure (\<lambda>(ii, input). length input - ii))"
    by simp
next
  fix ii :: nat and input :: "byte list" and n :: nat
  assume len: "strlen input = Some n" and lt: "ii < n"
  have bound: "strlen bs = Some k \<Longrightarrow> k < length bs" for bs k
    by (induction bs arbitrary: k) (auto split: if_splits)
  from bound [OF len] lt
  show "((Suc ii, input[ii := input ! ii + 1]), (ii, input))
          \<in> measure (\<lambda>(ii, input). length input - ii)"
    by simp
qed

text \<open>\<open>void add_one_to_string(char *input)\<close>, with \<open>int ii = 0\<close>.\<close>

definition add_one_to_string :: "(byte list, unit) prog" where
  "add_one_to_string = add_one_loop 0"

subsection \<open>The host side\<close>

text \<open>
  The host (Python) holds the immutable text \<open>original_string\<close>, the buffer
  \<open>mutable_string\<close> made by \<open>ctypes.create_string_buffer\<close>, and other memory of the
  process: ctypes.md reports that in the call with the text itself "the C function
  modified some other memory, not the string".
\<close>

record host =
  original_string :: string
  mutable_string :: "byte list"
  other_memory :: "byte list"

text \<open>\<open>str.encode\<close>: the bytes of the text.\<close>

definition encode :: "string \<Rightarrow> byte list" where
  "encode s = map of_char s"

text \<open>\<open>ctypes.create_string_buffer(bytes)\<close>: a fresh buffer holding a copy of the bytes
  and a terminating zero.\<close>

definition create_string_buffer :: "byte list \<Rightarrow> byte list" where
  "create_string_buffer bs = bs @ [0]"

text \<open>\<open>buffer.value\<close>: the bytes up to the first zero.\<close>

definition buffer_value :: "byte list \<Rightarrow> byte list" where
  "buffer_value buf = takeWhile (\<lambda>b. b \<noteq> 0) buf"

text \<open>
  \<open>mutable_string = ctypes.create_string_buffer(str.encode(original_string))\<close>, then
  \<open>libc.add_one_to_string(mutable_string)\<close>.
\<close>

definition call_with_buffer :: "(host, unit) prog" where
  "call_with_buffer h =
     (case add_one_to_string (create_string_buffer (encode (original_string h))) of
        (r, buf) \<Rightarrow> (r, h\<lparr>mutable_string := buf\<rparr>))"

text \<open>
  \<open>libc.add_one_to_string(original_string)\<close>: the call is made, and the C function works
  on the other memory.
\<close>

definition call_with_text :: "(host, unit) prog" where
  "call_with_text h =
     (case add_one_to_string (other_memory h) of
        (r, m) \<Rightarrow> (r, h\<lparr>other_memory := m\<rparr>))"

section \<open>Notions the properties are stated with\<close>

text \<open>\<open>a\<close> is \<open>&p\<close>: a non-null address of live storage whose two fields hold \<open>p\<close>.\<close>

definition points_to :: "state \<Rightarrow> addr \<Rightarrow> Point \<Rightarrow> bool" where
  "points_to s a p =
     (a \<noteq> NULL \<and>
      (case heap s a of
         None \<Rightarrow> False
       | Some b \<Rightarrow> live b \<and> fld_x b = Some (x p) \<and> fld_y b = Some (y p)))"

text \<open>Both fields can be read through \<open>a\<close>: live storage, both fields written.\<close>

definition readable :: "state \<Rightarrow> addr \<Rightarrow> bool" where
  "readable s a =
     (a \<noteq> NULL \<and>
      (case heap s a of
         None \<Rightarrow> False
       | Some b \<Rightarrow> live b \<and> fld_x b \<noteq> None \<and> fld_y b \<noteq> None))"

text \<open>Nothing but the standard output differs between the two states.\<close>

definition same_memory :: "state \<Rightarrow> state \<Rightarrow> bool" where
  "same_memory s s' =
     (heap s' = heap s \<and> counter s' = counter s \<and> allocator s' = allocator s)"



text \<open>Two consecutive calls of \<open>getPoint\<close>, returning both points.\<close>

definition getPoint_twice :: "(state, Point \<times> Point) prog" where
  "getPoint_twice =
     bnd getPoint (\<lambda>p1.
     bnd getPoint (\<lambda>p2.
     ret (p1, p2)))"


text \<open>
  A sequence of calls of the two operations in any interleaving, collecting the point
  each call produced: the value returned by \<open>getPoint\<close>, and the point read through
  the pointer returned by \<open>getPointPointer\<close>.
\<close>

datatype call = GetPoint | GetPointPointer

fun run_calls :: "call list \<Rightarrow> (state, Point list) prog" where
  "run_calls [] = ret []"
| "run_calls (GetPoint # cs) =
     bnd getPoint (\<lambda>p.
     bnd (run_calls cs) (\<lambda>ps.
     ret (p # ps)))"
| "run_calls (GetPointPointer # cs) =
     bnd getPointPointer (\<lambda>a.
     bnd (load_x a) (\<lambda>vx.
     bnd (load_y a) (\<lambda>vy.
     bnd (run_calls cs) (\<lambda>ps.
     ret (\<lparr>x = vx, y = vy\<rparr> # ps)))))"

text \<open>The points \<open>(c, c+1), (c+2, c+3), ...\<close>, \<open>n\<close> of them.\<close>

fun coords :: "cint \<Rightarrow> nat \<Rightarrow> Point list" where
  "coords c 0 = []"
| "coords c (Suc n) = \<lparr>x = c, y = c + 1\<rparr> # coords (c + 2) n"

text \<open>The allocator has a non-null result for each of the \<open>getPointPointer\<close> calls.\<close>

definition allocations_succeed :: "call list \<Rightarrow> state \<Rightarrow> bool" where
  "allocations_succeed cs s =
     (length (filter (\<lambda>c. c = GetPointPointer) cs) \<le> length (allocator s) \<and>
      list_all (\<lambda>a. a \<noteq> NULL)
        (take (length (filter (\<lambda>c. c = GetPointPointer) cs)) (allocator s)))"

section \<open>Concrete states used as examples\<close>

text \<open>A caller that keeps the point \<open>p\<close> in storage of its own at address 1.\<close>

definition caller_state :: "Point \<Rightarrow> state" where
  "caller_state p =
     \<lparr>counter = 0,
      heap = (\<lambda>a. None)(1 \<mapsto>
        \<lparr>origin = CallerOwned, live = True, fld_x = Some (x p), fld_y = Some (y p)\<rparr>),
      allocator = [],
      stdout = []\<rparr>"

text \<open>The process with the counter at \<open>c\<close> and nothing allocated.\<close>

definition counter_state :: "cint \<Rightarrow> state" where
  "counter_state c = (initial_state [])\<lparr>counter := c\<rparr>"

text \<open>The host of ctypes.md before the calls, with two bytes of other memory.\<close>

definition example_host :: host where
  "example_host =
     \<lparr>original_string = ''staring string'', mutable_string = [], other_memory = [115, 0]\<rparr>"

section \<open>Auxiliary facts\<close>

subsection \<open>Signed increments without overflow\<close>

lemma sint_succ: "sint (v :: cint) < INT_MAX \<Longrightarrow> sint (v + 1) = sint v + 1"
proof -
  assume lt: "sint v < INT_MAX"
  have lo: "- (2 ^ 31) \<le> sint v"
    using sint_ge [of v] by simp
  have "sint (v + 1) = signed_take_bit 31 (sint v + 1)"
    by (simp add: sint_word_add)
  also have "\<dots> = sint v + 1"
    using lt lo by (intro signed_take_bit_int_eq_self) (simp_all add: INT_MAX_def)
  finally show ?thesis .
qed

lemma sint_plus:
  "sint (v :: cint) + int k \<le> INT_MAX \<Longrightarrow> sint (v + of_nat k) = sint v + int k"
proof (induction k)
  case 0
  then show ?case by simp
next
  case (Suc k)
  then have ih: "sint (v + of_nat k) = sint v + int k"
    by simp
  from Suc.prems ih have "sint (v + of_nat k) < INT_MAX"
    by simp
  from sint_succ [OF this] ih show ?case
    by (simp add: ac_simps)
qed

lemma sint_plus2: "sint (v :: cint) + 2 \<le> INT_MAX \<Longrightarrow> sint (v + 2) = sint v + 2"
  using sint_plus [of v 2] by simp

subsection \<open>Sequencing\<close>

lemma bnd_Inr: "m s = (Inr v, s') \<Longrightarrow> bnd m k s = k v s'"
  by (simp add: bnd_def)

lemma fst_bnd_ret: "fst (m s) = Inr v \<Longrightarrow> fst (bnd m (\<lambda>r. ret (f r)) s) = Inr (f v)"
  by (cases "m s") (simp add: bnd_def ret_def)

lemmas monad_defs = bnd_def ret_def trap_def

lemmas mem_defs = access_def load_x_def load_y_def store_x_def store_y_def

subsection \<open>The two operations that draw from the counter\<close>

lemma getPoint_ok:
  assumes "sint (counter s) + 2 \<le> INT_MAX"
  shows "getPoint s = (Inr \<lparr>x = counter s, y = counter s + 1\<rparr>,
           s\<lparr>counter := counter s + 2,
              stdout := stdout s @ [(fmt_returning, [D (counter s), D (counter s + 1)])]\<rparr>)"
proof -
  from assms have a: "sint (counter s) < INT_MAX"
    by simp
  from assms sint_succ [OF a] have b: "sint (counter s + 1) < INT_MAX"
    by simp
  from a b show ?thesis
    by (simp add: getPoint_def counter_postinc_def printf_def monad_defs add.assoc)
qed

lemma getPointPointer_ok:
  assumes "allocator s = a # rest" and "a \<noteq> NULL" and "sint (counter s) + 2 \<le> INT_MAX"
  shows "getPointPointer s = (Inr a,
           s\<lparr>counter := counter s + 2,
              heap := (heap s)(a \<mapsto> \<lparr>origin = Malloced, live = True,
                         fld_x = Some (counter s), fld_y = Some (counter s + 1)\<rparr>),
              allocator := rest,
              stdout := stdout s @
                [(fmt_returning_at, [D (counter s), D (counter s + 1), P a])]\<rparr>)"
proof -
  from assms(3) have a: "sint (counter s) < INT_MAX"
    by simp
  from assms(3) sint_succ [OF a] have b: "sint (counter s + 1) < INT_MAX"
    by simp
  from assms(1,2) a b show ?thesis
    by (simp add: getPointPointer_def malloc_def counter_postinc_def printf_def
        monad_defs mem_defs add.assoc)
qed


subsection \<open>Interleaved calls\<close>

lemma coords_sint:
  "sint c + 2 * int n \<le> INT_MAX \<Longrightarrow>
     map (\<lambda>p. (sint (x p), sint (y p))) (coords c n)
       = map (\<lambda>k. (sint c + 2 * int k, sint c + 2 * int k + 1)) [0..<n]"
proof (induction n arbitrary: c)
  case 0
  then show ?case by simp
next
  case (Suc n)
  from Suc.prems have c1: "sint (c + 1) = sint c + 1"
    using sint_plus [of c 1] by simp
  from Suc.prems have c2: "sint (c + 2) = sint c + 2"
    using sint_plus [of c 2] by simp
  from Suc.prems c2 have "sint (c + 2) + 2 * int n \<le> INT_MAX"
    by simp
  from Suc.IH [OF this]
  have ih: "map (\<lambda>p. (sint (x p), sint (y p))) (coords (c + 2) n)
       = map (\<lambda>k. (sint c + 2 * int (Suc k), sint c + 2 * int (Suc k) + 1)) [0..<n]"
    by (simp add: c2 algebra_simps)
  have "[0..<Suc n] = 0 # map Suc [0..<n]"
    by (simp add: upt_conv_Cons map_Suc_upt del: upt_Suc)
  then show ?case
    by (simp add: c1 ih comp_def del: upt_Suc)
qed

lemma run_calls_ok:
  "sint (counter s) + 2 * int (length cs) \<le> INT_MAX \<Longrightarrow> allocations_succeed cs s \<Longrightarrow>
     fst (run_calls cs s) = Inr (coords (counter s) (length cs))"
proof (induction cs arbitrary: s)
  case Nil
  then show ?case by (simp add: ret_def)
next
  case (Cons c cs)
  from Cons.prems(1) have two: "sint (counter s) + 2 \<le> INT_MAX"
    by simp
  have c2: "sint (counter s + 2) = sint (counter s) + 2"
    by (rule sint_plus2 [OF two])
  show ?case
  proof (cases c)
    case GetPoint
    let ?s1 = "s\<lparr>counter := counter s + 2,
              stdout := stdout s @ [(fmt_returning, [D (counter s), D (counter s + 1)])]\<rparr>"
    have step: "getPoint s = (Inr \<lparr>x = counter s, y = counter s + 1\<rparr>, ?s1)"
      by (rule getPoint_ok [OF two])
    have b: "sint (counter ?s1) + 2 * int (length cs) \<le> INT_MAX"
      using Cons.prems(1) c2 by simp
    have al: "allocations_succeed cs ?s1"
      using Cons.prems(2) GetPoint by (simp add: allocations_succeed_def)
    from Cons.IH [OF b al]
    have rest: "fst (run_calls cs ?s1) = Inr (coords (counter s + 2) (length cs))"
      by simp
    have "run_calls (c # cs) s
            = bnd (run_calls cs) (\<lambda>ps. ret (\<lparr>x = counter s, y = counter s + 1\<rparr> # ps)) ?s1"
      by (simp only: GetPoint run_calls.simps bnd_Inr [where m = getPoint, OF step])
    then show ?thesis
      by (simp add: fst_bnd_ret [where m = "run_calls cs", OF rest])
  next
    case GetPointPointer
    from Cons.prems(2) GetPointPointer obtain a rest where
      al: "allocator s = a # rest" and nn: "a \<noteq> NULL"
      by (cases "allocator s") (auto simp add: allocations_succeed_def)
    let ?s1 = "s\<lparr>counter := counter s + 2,
              heap := (heap s)(a \<mapsto> \<lparr>origin = Malloced, live = True,
                         fld_x = Some (counter s), fld_y = Some (counter s + 1)\<rparr>),
              allocator := rest,
              stdout := stdout s @
                [(fmt_returning_at, [D (counter s), D (counter s + 1), P a])]\<rparr>"
    have step: "getPointPointer s = (Inr a, ?s1)"
      by (rule getPointPointer_ok [OF al nn two])
    have lx: "load_x a ?s1 = (Inr (counter s), ?s1)"
      using nn by (simp add: monad_defs mem_defs)
    have ly: "load_y a ?s1 = (Inr (counter s + 1), ?s1)"
      using nn by (simp add: monad_defs mem_defs)
    have b: "sint (counter ?s1) + 2 * int (length cs) \<le> INT_MAX"
      using Cons.prems(1) c2 by simp
    have al': "allocations_succeed cs ?s1"
      using Cons.prems(2) GetPointPointer al by (simp add: allocations_succeed_def)
    from Cons.IH [OF b al']
    have rest: "fst (run_calls cs ?s1) = Inr (coords (counter s + 2) (length cs))"
      by simp
    have "run_calls (c # cs) s
            = bnd (run_calls cs) (\<lambda>ps. ret (\<lparr>x = counter s, y = counter s + 1\<rparr> # ps)) ?s1"
      by (simp only: GetPointPointer run_calls.simps
          bnd_Inr [where m = getPointPointer, OF step]
          bnd_Inr [where m = "load_x a", OF lx] bnd_Inr [where m = "load_y a", OF ly])
    then show ?thesis
      by (simp add: fst_bnd_ret [where m = "run_calls cs", OF rest])
  qed
qed

subsection \<open>The string loop\<close>

declare add_one_loop.simps [simp del]

lemma strlen_Some_iff:
  "strlen bs = Some n \<longleftrightarrow> n < length bs \<and> bs ! n = 0 \<and> (\<forall>i<n. bs ! i \<noteq> 0)"
proof (induction bs arbitrary: n)
  case Nil
  then show ?case by simp
next
  case (Cons b bs)
  show ?case
  proof (cases n)
    case 0
    then show ?thesis by auto
  next
    case (Suc m)
    then show ?thesis
      using Cons.IH [of m] by (auto simp add: less_Suc_eq_0_disj)
  qed
qed

lemma strlen_first_zero:
  "j < length bs \<Longrightarrow> bs ! j = 0 \<Longrightarrow> \<exists>m\<le>j. strlen bs = Some m"
proof (induction bs arbitrary: j)
  case Nil
  then show ?case by simp
next
  case (Cons b bs)
  show ?case
  proof (cases j)
    case 0
    with Cons.prems show ?thesis by simp
  next
    case (Suc k)
    with Cons.prems Cons.IH [of k] show ?thesis by auto
  qed
qed

lemma strlen_update:
  assumes "strlen bs = Some n" and "ii < n"
  shows "\<exists>m\<le>n. strlen (bs[ii := v]) = Some m"
proof -
  from assms(1) have "n < length bs" and "bs ! n = 0"
    by (simp_all add: strlen_Some_iff)
  with assms(2) have "n < length (bs[ii := v])" and "(bs[ii := v]) ! n = 0"
    by simp_all
  then show ?thesis by (rule strlen_first_zero)
qed

lemma add_one_loop_frame:
  "strlen input = Some n \<Longrightarrow>
     drop n (snd (add_one_loop ii input)) = drop n input
     \<and> length (snd (add_one_loop ii input)) = length input"
proof (induction ii input arbitrary: n rule: add_one_loop.induct)
  case (1 ii input)
  note len = \<open>strlen input = Some n\<close>
  let ?input' = "input[ii := input ! ii + 1]"
  show ?case
  proof (cases "ii < n")
    case False
    with len show ?thesis by (simp add: add_one_loop.simps [of ii input])
  next
    case lt: True
    show ?thesis
    proof (cases "int ii = INT_MAX")
      case True
      with len lt show ?thesis by (simp add: add_one_loop.simps [of ii input])
    next
      case False
      from strlen_update [OF len lt] obtain m where
        m: "m \<le> n" "strlen ?input' = Some m" by blast
      from "1.IH" [OF len lt False m(2)]
      have ih: "drop m (snd (add_one_loop (Suc ii) ?input')) = drop m ?input'"
        and ihl: "length (snd (add_one_loop (Suc ii) ?input')) = length input"
        by simp_all
      have "drop n (snd (add_one_loop (Suc ii) ?input'))
              = drop (n - m) (drop m (snd (add_one_loop (Suc ii) ?input')))"
        using m(1) by simp
      also have "\<dots> = drop n ?input'"
        using m(1) by (simp add: ih)
      also have "\<dots> = drop n input"
        using lt by simp
      finally have "drop n (snd (add_one_loop (Suc ii) ?input')) = drop n input" .
      with ihl len lt False show ?thesis
        by (simp add: add_one_loop.simps [of ii input])
    qed
  qed
qed

lemma add_one_loop_returns:
  "strlen input = Some n \<Longrightarrow> int n \<le> INT_MAX \<Longrightarrow> fst (add_one_loop ii input) = Inr ()"
proof (induction ii input arbitrary: n rule: add_one_loop.induct)
  case (1 ii input)
  note len = \<open>strlen input = Some n\<close>
  let ?input' = "input[ii := input ! ii + 1]"
  show ?case
  proof (cases "ii < n")
    case False
    with len show ?thesis by (simp add: add_one_loop.simps [of ii input])
  next
    case lt: True
    with \<open>int n \<le> INT_MAX\<close> have ne: "int ii \<noteq> INT_MAX"
      by simp
    from strlen_update [OF len lt] obtain m where
      m: "m \<le> n" "strlen ?input' = Some m" by blast
    from m(1) \<open>int n \<le> INT_MAX\<close> have "int m \<le> INT_MAX"
      by simp
    from "1.IH" [OF len lt ne m(2) this] len lt ne show ?thesis
      by (simp add: add_one_loop.simps [of ii input])
  qed
qed

subsection \<open>What the string loop writes\<close>

lemma byte_wraps: "(b :: byte) + 1 = 0 \<longleftrightarrow> b = 255"
proof
  assume "b + 1 = 0"
  then have "b = - 1"
    by (simp add: add_eq_0_iff2)
  then show "b = 255"
    by simp
next
  assume "b = 255"
  then show "b + 1 = 0"
    by simp
qed

lemma strlen_update_wrap:
  assumes "strlen bs = Some n" and "ii < n"
  shows "strlen (bs[ii := 0]) = Some ii"
  using assms by (auto simp add: strlen_Some_iff)

lemma strlen_update_keep:
  assumes "strlen bs = Some n" and "ii < n" and "v \<noteq> 0"
  shows "strlen (bs[ii := v]) = Some n"
  using assms by (auto simp add: strlen_Some_iff nth_list_update)

lemma add_one_loop_bytes:
  "strlen input = Some n \<Longrightarrow> int n \<le> INT_MAX \<Longrightarrow> i < length input \<Longrightarrow>
     snd (add_one_loop ii input) ! i =
       (if ii \<le> i \<and> i < n \<and> (\<forall>j. ii \<le> j \<and> j < i \<longrightarrow> input ! j \<noteq> 255)
        then input ! i + 1 else input ! i)"
proof (induction ii input arbitrary: n rule: add_one_loop.induct)
  case (1 ii input)
  note len = \<open>strlen input = Some n\<close>
  note bound = \<open>int n \<le> INT_MAX\<close>
  note inside = \<open>i < length input\<close>
  let ?input' = "input[ii := input ! ii + 1]"
  show ?case
  proof (cases "ii < n")
    case False
    with len show ?thesis
      by (simp add: add_one_loop.simps [of ii input])
  next
    case lt: True
    with bound have ne: "int ii \<noteq> INT_MAX"
      by simp
    from len lt have iil: "ii < length input"
      by (simp add: strlen_Some_iff)
    have unfold: "add_one_loop ii input = add_one_loop (Suc ii) ?input'"
      using len lt ne by (simp add: add_one_loop.simps [of ii input])
    have inside': "i < length ?input'"
      using inside by simp
    show ?thesis
    proof (cases "input ! ii = 255")
      case True
      then have "input ! ii + 1 = 0"
        by (simp only: byte_wraps)
      then have "?input' = input[ii := 0]"
        by (simp only:)
      with strlen_update_wrap [OF len lt] have len': "strlen ?input' = Some ii"
        by simp
      from lt bound have bound': "int ii \<le> INT_MAX"
        by simp
      from "1.IH" [OF len lt ne len' bound' inside']
      have out: "snd (add_one_loop (Suc ii) ?input') ! i = ?input' ! i"
        by simp
      show ?thesis
      proof (cases "i = ii")
        case True
        with out lt iil show ?thesis
          by (simp add: unfold)
      next
        case False
        have "\<not> (ii \<le> i \<and> i < n \<and> (\<forall>j. ii \<le> j \<and> j < i \<longrightarrow> input ! j \<noteq> 255))"
          using False \<open>input ! ii = 255\<close> by (auto simp add: le_less)
        with out False show ?thesis
          by (simp add: unfold)
      qed
    next
      case False
      then have nz: "input ! ii + 1 \<noteq> 0"
        by (simp add: byte_wraps)
      from strlen_update_keep [OF len lt nz] have len': "strlen ?input' = Some n" .
      from "1.IH" [OF len lt ne len' bound inside']
      have out: "snd (add_one_loop (Suc ii) ?input') ! i =
          (if Suc ii \<le> i \<and> i < n \<and> (\<forall>j. Suc ii \<le> j \<and> j < i \<longrightarrow> ?input' ! j \<noteq> 255)
           then ?input' ! i + 1 else ?input' ! i)" .
      show ?thesis
      proof (cases "i = ii")
        case True
        with out lt iil show ?thesis
          by (simp add: unfold)
      next
        case neq: False
        have same: "(\<forall>j. Suc ii \<le> j \<and> j < i \<longrightarrow> ?input' ! j \<noteq> 255)
            \<longleftrightarrow> (\<forall>j. ii \<le> j \<and> j < i \<longrightarrow> input ! j \<noteq> 255)" if "ii < i"
        proof
          assume a: "\<forall>j. Suc ii \<le> j \<and> j < i \<longrightarrow> ?input' ! j \<noteq> 255"
          show "\<forall>j. ii \<le> j \<and> j < i \<longrightarrow> input ! j \<noteq> 255"
          proof (intro allI impI)
            fix j
            assume j: "ii \<le> j \<and> j < i"
            show "input ! j \<noteq> 255"
            proof (cases "j = ii")
              case True
              with \<open>input ! ii \<noteq> 255\<close> show ?thesis by simp
            next
              case False
              with j a [rule_format, of j] show ?thesis by simp
            qed
          qed
        next
          assume a: "\<forall>j. ii \<le> j \<and> j < i \<longrightarrow> input ! j \<noteq> 255"
          show "\<forall>j. Suc ii \<le> j \<and> j < i \<longrightarrow> ?input' ! j \<noteq> 255"
          proof (intro allI impI)
            fix j
            assume j: "Suc ii \<le> j \<and> j < i"
            with a [rule_format, of j] show "?input' ! j \<noteq> 255" by simp
          qed
        qed
        show ?thesis
        proof (cases "ii < i")
          case True
          with out neq same [OF True] show ?thesis
            by (simp add: unfold Suc_le_eq less_imp_le)
        next
          case False
          with out neq show ?thesis
            by (simp add: unfold)
        qed
      qed
    qed
  qed
qed

lemma add_one_to_string_bytes:
  assumes "strlen input = Some n" and "int n \<le> INT_MAX"
  shows "fst (add_one_to_string input) = Inr ()"
    and "length (snd (add_one_to_string input)) = length input"
    and "i < length input \<Longrightarrow> snd (add_one_to_string input) ! i =
       (if i < n \<and> (\<forall>j<i. input ! j \<noteq> 255) then input ! i + 1 else input ! i)"
proof -
  show "fst (add_one_to_string input) = Inr ()"
    using add_one_loop_returns [OF assms, of 0] by (simp add: add_one_to_string_def)
  show "length (snd (add_one_to_string input)) = length input"
    using add_one_loop_frame [OF assms(1), of 0] by (simp add: add_one_to_string_def)
  show "snd (add_one_to_string input) ! i =
       (if i < n \<and> (\<forall>j<i. input ! j \<noteq> 255) then input ! i + 1 else input ! i)"
    if "i < length input"
    using add_one_loop_bytes [OF assms that, of 0] by (simp add: add_one_to_string_def)
qed

section \<open>The claims\<close>




text \<open>
  Claim C2, as stated, fails: the call with the text itself is not rejected. It returns
  normally, and the native function has run by then and changed other memory of the
  process, while the text is what it was.
\<close>

theorem call_with_text_counterexample:
  "fst (call_with_text example_host) = Inr ()
   \<and> other_memory example_host = [115, 0]
   \<and> other_memory (snd (call_with_text example_host)) = [116, 0]
   \<and> original_string (snd (call_with_text example_host)) = ''staring string''"
  by (simp add: call_with_text_def add_one_to_string_def example_host_def INT_MAX_def
      add_one_loop.simps)

text \<open>
  Claim C2, amended. Passing the immutable text itself to \<open>add_one_to_string\<close> is not
  rejected: the call is made, with the native function working on other memory of the
  process. Whenever that memory has its first zero byte at an index \<open>n \<le> INT_MAX\<close>, the
  call returns normally and has incremented by one, in that memory, every byte before the
  zero byte that has no byte \<open>0xFF\<close> before it, and no other byte; so for \<open>n > 0\<close> that
  memory is changed. The text, and the host's buffer, are unchanged by the call on every
  path.
\<close>

theorem call_with_text_increments:
  "original_string (snd (call_with_text h)) = original_string h
   \<and> mutable_string (snd (call_with_text h)) = mutable_string h
   \<and> (\<forall>n. strlen (other_memory h) = Some n \<and> int n \<le> INT_MAX \<longrightarrow>
         fst (call_with_text h) = Inr ()
         \<and> length (other_memory (snd (call_with_text h))) = length (other_memory h)
         \<and> (\<forall>i<length (other_memory h).
               other_memory (snd (call_with_text h)) ! i =
                 (if i < n \<and> (\<forall>j<i. other_memory h ! j \<noteq> 255)
                  then other_memory h ! i + 1 else other_memory h ! i))
         \<and> (0 < n \<longrightarrow> other_memory (snd (call_with_text h)) \<noteq> other_memory h))"
proof -
  have shape: "original_string (snd (call_with_text h)) = original_string h"
    "mutable_string (snd (call_with_text h)) = mutable_string h"
    "fst (call_with_text h) = fst (add_one_to_string (other_memory h))"
    "other_memory (snd (call_with_text h)) = snd (add_one_to_string (other_memory h))"
    by (simp_all add: call_with_text_def split: prod.splits)
  have ran: "fst (call_with_text h) = Inr ()
         \<and> length (other_memory (snd (call_with_text h))) = length (other_memory h)
         \<and> (\<forall>i<length (other_memory h).
               other_memory (snd (call_with_text h)) ! i =
                 (if i < n \<and> (\<forall>j<i. other_memory h ! j \<noteq> 255)
                  then other_memory h ! i + 1 else other_memory h ! i))
         \<and> (0 < n \<longrightarrow> other_memory (snd (call_with_text h)) \<noteq> other_memory h)"
    if len: "strlen (other_memory h) = Some n" and bound: "int n \<le> INT_MAX" for n
  proof -
    note bytes = add_one_to_string_bytes [OF len bound]
    have returned: "fst (call_with_text h) = Inr ()"
      by (simp add: shape bytes(1))
    have same_length: "length (other_memory (snd (call_with_text h))) = length (other_memory h)"
      by (simp add: shape bytes(2))
    have each: "\<forall>i<length (other_memory h).
               other_memory (snd (call_with_text h)) ! i =
                 (if i < n \<and> (\<forall>j<i. other_memory h ! j \<noteq> 255)
                  then other_memory h ! i + 1 else other_memory h ! i)"
      using bytes(3) by (simp add: shape)
    have changed: "other_memory (snd (call_with_text h)) \<noteq> other_memory h" if "0 < n"
    proof
      assume eq: "other_memory (snd (call_with_text h)) = other_memory h"
      from len have "n < length (other_memory h)"
        by (simp add: strlen_Some_iff)
      with that have "0 < length (other_memory h)"
        by arith
      with each that have "other_memory (snd (call_with_text h)) ! 0 = other_memory h ! 0 + 1"
        by simp
      with eq show False
        by simp
    qed
    from returned same_length each changed show ?thesis
      by blast
  qed
  from shape(1,2) ran show ?thesis
    by blast
qed

theorem call_with_text_increments_witness:
  "strlen (other_memory example_host) = Some 1 \<and> int 1 \<le> INT_MAX \<and> (0 :: nat) < 1
   \<and> fst (call_with_text example_host) = Inr ()
   \<and> original_string (snd (call_with_text example_host)) = original_string example_host
   \<and> other_memory (snd (call_with_text example_host)) \<noteq> other_memory example_host
   \<and> other_memory (snd (call_with_text example_host)) ! 0 = 116"
proof -
  have h1: "strlen (other_memory example_host) = Some 1 \<and> int 1 \<le> INT_MAX"
    by (simp add: example_host_def INT_MAX_def)
  have h2: "(0 :: nat) < 1"
    by simp
  have h3: "0 < length (other_memory example_host)"
    by (simp add: example_host_def)
  have first: "(if (0 :: nat) < 1 \<and> (\<forall>j<0. other_memory example_host ! j \<noteq> 255)
      then other_memory example_host ! 0 + 1 else other_memory example_host ! 0) = 116"
    by (simp add: example_host_def)
  note increments = call_with_text_increments [of example_host]
  note at_one = increments [THEN conjunct2, THEN conjunct2, THEN spec, of 1, THEN mp, OF h1]
  from at_one have returned: "fst (call_with_text example_host) = Inr ()"
    by blast
  from increments have kept: "original_string (snd (call_with_text example_host))
      = original_string example_host"
    by blast
  from at_one h2
  have changed: "other_memory (snd (call_with_text example_host)) \<noteq> other_memory example_host"
    by blast
  from at_one h3
  have "other_memory (snd (call_with_text example_host)) ! 0 =
      (if (0 :: nat) < 1 \<and> (\<forall>j<0. other_memory example_host ! j \<noteq> 255)
       then other_memory example_host ! 0 + 1 else other_memory example_host ! 0)"
    by blast
  with first have byte: "other_memory (snd (call_with_text example_host)) ! 0 = 116"
    by (simp only:)
  from h1 h2 returned kept changed byte show ?thesis
    by blast
qed

text \<open>
  Claim C3, as stated, fails: with the counter at \<open>INT_MAX - 2\<close> the first call of
  \<open>getPoint\<close> returns a point and the second one overflows the counter and returns none.
\<close>

theorem getPoint_twice_counterexample:
  "fst (getPoint (counter_state 2147483645)) = Inr \<lparr>x = 2147483645, y = 2147483646\<rparr>
   \<and> fst (getPoint (snd (getPoint (counter_state 2147483645)))) = Inl SignedOverflow
   \<and> fst (getPoint_twice (counter_state 2147483645)) = Inl SignedOverflow"
  by (simp add: getPoint_twice_def getPoint_def counter_postinc_def printf_def monad_defs
      counter_state_def initial_state_def INT_MAX_def)

text \<open>
  Claim C3, amended. From a counter \<open>c\<close> with \<open>c + 4 \<le> INT_MAX\<close>, two consecutive calls
  of \<open>getPoint\<close> return \<open>(c, c+1)\<close> and \<open>(c+2, c+3)\<close>, four strictly increasing
  values, and leave the counter at \<open>c + 4\<close>: two ticks per call. From the initial
  counter 0 they return \<open>(0, 1)\<close> and \<open>(2, 3)\<close>.
\<close>

theorem getPoint_twice_ok:
  assumes "sint (counter s) + 4 \<le> INT_MAX"
  shows "fst (getPoint_twice s) =
           Inr (\<lparr>x = counter s, y = counter s + 1\<rparr>, \<lparr>x = counter s + 2, y = counter s + 3\<rparr>)
     \<and> sint (counter s + 1) = sint (counter s) + 1
     \<and> sint (counter s + 2) = sint (counter s) + 2
     \<and> sint (counter s + 3) = sint (counter s) + 3
     \<and> counter (snd (getPoint s)) = counter s + 2
     \<and> counter (snd (getPoint_twice s)) = counter s + 4
     \<and> (counter s = 0 \<longrightarrow>
          fst (getPoint_twice s) = Inr (\<lparr>x = 0, y = 1\<rparr>, \<lparr>x = 2, y = 3\<rparr>))"
proof -
  let ?c = "counter s"
  from assms have a: "sint ?c + 2 \<le> INT_MAX"
    by simp
  have c2: "sint (?c + 2) = sint ?c + 2"
    by (rule sint_plus2 [OF a])
  let ?s1 = "s\<lparr>counter := ?c + 2,
              stdout := stdout s @ [(fmt_returning, [D ?c, D (?c + 1)])]\<rparr>"
  have first: "getPoint s = (Inr \<lparr>x = ?c, y = ?c + 1\<rparr>, ?s1)"
    by (rule getPoint_ok [OF a])
  have b: "sint (counter ?s1) + 2 \<le> INT_MAX"
    using assms c2 by simp
  from getPoint_ok [OF b]
  have second: "getPoint ?s1 = (Inr \<lparr>x = ?c + 2, y = ?c + 3\<rparr>,
      ?s1\<lparr>counter := ?c + 4,
          stdout := stdout ?s1 @ [(fmt_returning, [D (?c + 2), D (?c + 3)])]\<rparr>)"
    by (simp add: add.assoc)
  have run: "getPoint_twice s = (Inr (\<lparr>x = ?c, y = ?c + 1\<rparr>, \<lparr>x = ?c + 2, y = ?c + 3\<rparr>),
      ?s1\<lparr>counter := ?c + 4,
          stdout := stdout ?s1 @ [(fmt_returning, [D (?c + 2), D (?c + 3)])]\<rparr>)"
    unfolding getPoint_twice_def
    by (simp only: bnd_Inr [where m = getPoint, OF first]
        bnd_Inr [where m = getPoint, OF second] ret_def)
  have res: "fst (getPoint_twice s) =
      Inr (\<lparr>x = ?c, y = ?c + 1\<rparr>, \<lparr>x = ?c + 2, y = ?c + 3\<rparr>)"
    by (simp add: run)
  have cnt1: "counter (snd (getPoint s)) = ?c + 2"
    by (simp add: first)
  have cnt2: "counter (snd (getPoint_twice s)) = ?c + 4"
    by (simp add: run)
  have s1: "sint (?c + 1) = sint ?c + 1"
    using sint_plus [of ?c 1] assms by simp
  have s3: "sint (?c + 3) = sint ?c + 3"
    using sint_plus [of ?c 3] assms by simp
  show ?thesis
    using res cnt1 cnt2 s1 c2 s3 by auto
qed

theorem getPoint_twice_ok_witness:
  "sint (counter (initial_state [])) + 4 \<le> INT_MAX
   \<and> fst (getPoint_twice (initial_state [])) = Inr (\<lparr>x = 0, y = 1\<rparr>, \<lparr>x = 2, y = 3\<rparr>)
   \<and> counter (snd (getPoint_twice (initial_state []))) = 4"
proof -
  have h: "sint (counter (initial_state [])) + 4 \<le> INT_MAX"
    by (simp add: initial_state_def INT_MAX_def)
  have z: "counter (initial_state []) = 0"
    by (simp add: initial_state_def)
  from getPoint_twice_ok [OF h] h z show ?thesis
    by simp
qed

text \<open>
  Claim C4, as stated, fails: with the counter at \<open>INT_MAX\<close> neither operation produces
  a point, since the second \<open>counter++\<close> overflows; and \<open>getPointPointer\<close> produces none
  either when the allocation fails, whatever the counter.
\<close>

theorem shared_counter_counterexample:
  "fst (getPoint (counter_state 2147483647)) = Inl SignedOverflow
   \<and> fst (getPointPointer ((counter_state 2147483647)\<lparr>allocator := [5]\<rparr>)) = Inl SignedOverflow
   \<and> fst (getPointPointer (initial_state [])) = Inl NullDereference"
  by (simp add: getPoint_def getPointPointer_def malloc_def counter_postinc_def printf_def
      monad_defs mem_defs NULL_def counter_state_def initial_state_def INT_MAX_def)

text \<open>
  Claim C4, amended. Both operations draw from the one counter, first the value for \<open>x\<close>,
  then the value for \<open>y\<close>: from a counter \<open>c\<close> with \<open>c + 2 \<le> INT_MAX\<close>, \<open>getPoint\<close>
  returns \<open>(c, c+1)\<close> and leaves the counter at \<open>c + 2\<close>, and so does
  \<open>getPointPointer\<close>, in the storage it returns, when its allocation succeeds. Hence any
  interleaving of \<open>n\<close> calls of the two, with \<open>c + 2n \<le> INT_MAX\<close> and every allocation
  succeeding, produces the one sequence \<open>(c, c+1), (c+2, c+3), ...\<close>, whose values
  increase by one from each to the next.
\<close>

theorem shared_counter:
  "(sint (counter s) + 2 \<le> INT_MAX \<longrightarrow>
      fst (getPoint s) = Inr \<lparr>x = counter s, y = counter s + 1\<rparr>
      \<and> counter (snd (getPoint s)) = counter s + 2
      \<and> sint (counter s + 1) = sint (counter s) + 1
      \<and> sint (counter s + 2) = sint (counter s) + 2
      \<and> (\<forall>a rest. allocator s = a # rest \<and> a \<noteq> NULL \<longrightarrow>
            fst (getPointPointer s) = Inr a
            \<and> points_to (snd (getPointPointer s)) a \<lparr>x = counter s, y = counter s + 1\<rparr>
            \<and> counter (snd (getPointPointer s)) = counter s + 2))
   \<and> (sint (counter s) + 2 * int (length cs) \<le> INT_MAX \<and> allocations_succeed cs s \<longrightarrow>
        fst (run_calls cs s) = Inr (coords (counter s) (length cs))
        \<and> map (\<lambda>p. (sint (x p), sint (y p))) (coords (counter s) (length cs))
            = map (\<lambda>k. (sint (counter s) + 2 * int k, sint (counter s) + 2 * int k + 1))
                [0..<length cs])"
proof -
  have one: "fst (getPoint s) = Inr \<lparr>x = counter s, y = counter s + 1\<rparr>
      \<and> counter (snd (getPoint s)) = counter s + 2
      \<and> sint (counter s + 1) = sint (counter s) + 1
      \<and> sint (counter s + 2) = sint (counter s) + 2
      \<and> (\<forall>a rest. allocator s = a # rest \<and> a \<noteq> NULL \<longrightarrow>
            fst (getPointPointer s) = Inr a
            \<and> points_to (snd (getPointPointer s)) a \<lparr>x = counter s, y = counter s + 1\<rparr>
            \<and> counter (snd (getPointPointer s)) = counter s + 2)"
    if two: "sint (counter s) + 2 \<le> INT_MAX"
  proof -
    have s1: "sint (counter s + 1) = sint (counter s) + 1"
      using sint_plus [of "counter s" 1] two by simp
    have s2: "sint (counter s + 2) = sint (counter s) + 2"
      by (rule sint_plus2 [OF two])
    have ptr: "fst (getPointPointer s) = Inr a
            \<and> points_to (snd (getPointPointer s)) a \<lparr>x = counter s, y = counter s + 1\<rparr>
            \<and> counter (snd (getPointPointer s)) = counter s + 2"
      if "allocator s = a # rest" and "a \<noteq> NULL" for a rest
      using getPointPointer_ok [OF that two] that(2)
      by (simp add: points_to_def)
    from getPoint_ok [OF two] s1 s2 ptr show ?thesis
      by simp
  qed
  have many: "fst (run_calls cs s) = Inr (coords (counter s) (length cs))
        \<and> map (\<lambda>p. (sint (x p), sint (y p))) (coords (counter s) (length cs))
            = map (\<lambda>k. (sint (counter s) + 2 * int k, sint (counter s) + 2 * int k + 1))
                [0..<length cs]"
    if "sint (counter s) + 2 * int (length cs) \<le> INT_MAX" and "allocations_succeed cs s"
    using run_calls_ok [OF that] coords_sint [OF that(1)] by simp
  from one many show ?thesis
    by blast
qed

theorem shared_counter_witness:
  "sint (counter (initial_state [7, 9])) + 2 \<le> INT_MAX
   \<and> allocator (initial_state [7, 9]) = 7 # [9] \<and> 7 \<noteq> NULL
   \<and> sint (counter (initial_state [7, 9]))
        + 2 * int (length [GetPoint, GetPointPointer, GetPoint]) \<le> INT_MAX
   \<and> allocations_succeed [GetPoint, GetPointPointer, GetPoint] (initial_state [7, 9])
   \<and> fst (getPoint (initial_state [7, 9])) = Inr \<lparr>x = 0, y = 1\<rparr>
   \<and> fst (getPointPointer (initial_state [7, 9])) = Inr 7
   \<and> points_to (snd (getPointPointer (initial_state [7, 9]))) 7 \<lparr>x = 0, y = 1\<rparr>
   \<and> fst (run_calls [GetPoint, GetPointPointer, GetPoint] (initial_state [7, 9]))
       = Inr [\<lparr>x = 0, y = 1\<rparr>, \<lparr>x = 2, y = 3\<rparr>, \<lparr>x = 4, y = 5\<rparr>]"
proof -
  have h1: "sint (counter (initial_state [7, 9])) + 2 \<le> INT_MAX"
    by (simp add: initial_state_def INT_MAX_def)
  have h2: "allocator (initial_state [7, 9]) = 7 # [9] \<and> (7 :: addr) \<noteq> NULL"
    by (simp add: initial_state_def NULL_def)
  have h3: "sint (counter (initial_state [7, 9]))
        + 2 * int (length [GetPoint, GetPointPointer, GetPoint]) \<le> INT_MAX"
    by (simp add: initial_state_def INT_MAX_def)
  have h4: "allocations_succeed [GetPoint, GetPointPointer, GetPoint] (initial_state [7, 9])"
    by (simp add: allocations_succeed_def initial_state_def NULL_def)
  have z: "counter (initial_state [7, 9]) = 0"
    by (simp add: initial_state_def)
  have three: "coords 0 (length [GetPoint, GetPointPointer, GetPoint])
      = [\<lparr>x = 0, y = 1\<rparr>, \<lparr>x = 2, y = 3\<rparr>, \<lparr>x = 4, y = 5\<rparr>]"
    by (simp add: numeral_3_eq_3)
  from shared_counter [of "initial_state [7, 9]" "[GetPoint, GetPointPointer, GetPoint]"]
    h1 h2 h3 h4
  show ?thesis
    by (simp add: z three)
qed

text \<open>
  Claim C5. For every point \<open>p\<close> and every state, \<open>movePoint p\<close> changes nothing but
  the standard output: the store, the counter and the allocator are as before, also when
  an increment of the copy overflows. So a caller that holds \<open>p\<close> in its storage holds
  the same \<open>p\<close> afterwards. When neither field is \<open>INT_MAX\<close> the call returns, having
  displayed \<open>p\<close> and then the incremented copy.
\<close>

theorem movePoint_frame:
  "same_memory s (snd (movePoint p s))
   \<and> (points_to s a p \<longrightarrow> points_to (snd (movePoint p s)) a p)
   \<and> (sint (x p) < INT_MAX \<and> sint (y p) < INT_MAX \<longrightarrow>
        movePoint p s = (Inr (), s\<lparr>stdout := stdout s @
           [(fmt_point, [D (x p), D (y p)]), (fmt_point, [D (x p + 1), D (y p + 1)])]\<rparr>))"
  by (simp add: movePoint_def local_incr_x_def local_incr_y_def incr_def same_memory_def
      printf_def monad_defs points_to_def)

theorem movePoint_frame_witness:
  "points_to (caller_state \<lparr>x = 3, y = 4\<rparr>) 1 \<lparr>x = 3, y = 4\<rparr>
   \<and> sint (x \<lparr>x = 3, y = 4\<rparr>) < INT_MAX \<and> sint (y \<lparr>x = 3, y = 4\<rparr>) < INT_MAX
   \<and> points_to (snd (movePoint \<lparr>x = 3, y = 4\<rparr> (caller_state \<lparr>x = 3, y = 4\<rparr>))) 1 \<lparr>x = 3, y = 4\<rparr>
   \<and> fst (movePoint \<lparr>x = 3, y = 4\<rparr> (caller_state \<lparr>x = 3, y = 4\<rparr>)) = Inr ()
   \<and> stdout (snd (movePoint \<lparr>x = 3, y = 4\<rparr> (caller_state \<lparr>x = 3, y = 4\<rparr>)))
       = [(fmt_point, [D 3, D 4]), (fmt_point, [D 4, D 5])]"
proof -
  have h1: "points_to (caller_state \<lparr>x = 3, y = 4\<rparr>) 1 \<lparr>x = 3, y = 4\<rparr>"
    by (simp add: points_to_def caller_state_def NULL_def)
  have h2: "sint (x \<lparr>x = 3, y = 4\<rparr>) < INT_MAX \<and> sint (y \<lparr>x = 3, y = 4\<rparr>) < INT_MAX"
    by (simp add: INT_MAX_def)
  have out: "stdout (caller_state \<lparr>x = 3, y = 4\<rparr>) = []"
    by (simp add: caller_state_def)
  note frame = movePoint_frame [of "caller_state \<lparr>x = 3, y = 4\<rparr>" "\<lparr>x = 3, y = 4\<rparr>" 1]
  from frame h1
  have kept: "points_to (snd (movePoint \<lparr>x = 3, y = 4\<rparr> (caller_state \<lparr>x = 3, y = 4\<rparr>))) 1
      \<lparr>x = 3, y = 4\<rparr>"
    by blast
  from frame h2
  have run: "movePoint \<lparr>x = 3, y = 4\<rparr> (caller_state \<lparr>x = 3, y = 4\<rparr>) =
      (Inr (), (caller_state \<lparr>x = 3, y = 4\<rparr>)\<lparr>stdout := stdout (caller_state \<lparr>x = 3, y = 4\<rparr>) @
           [(fmt_point, [D (x \<lparr>x = 3, y = 4\<rparr>), D (y \<lparr>x = 3, y = 4\<rparr>)]),
            (fmt_point, [D (x \<lparr>x = 3, y = 4\<rparr> + 1), D (y \<lparr>x = 3, y = 4\<rparr> + 1)])]\<rparr>)"
    by blast
  have res: "fst (movePoint \<lparr>x = 3, y = 4\<rparr> (caller_state \<lparr>x = 3, y = 4\<rparr>)) = Inr ()"
    by (simp add: run)
  have printed: "stdout (snd (movePoint \<lparr>x = 3, y = 4\<rparr> (caller_state \<lparr>x = 3, y = 4\<rparr>)))
       = [(fmt_point, [D 3, D 4]), (fmt_point, [D 4, D 5])]"
    by (simp add: run out)
  from h1 h2 kept res printed show ?thesis
    by blast
qed

text \<open>
  Claim C6, as stated, fails: for the point \<open>(INT_MAX, 0)\<close> in live caller-owned storage,
  \<open>point->x++\<close> overflows and \<open>movePointRef\<close> stops there.
\<close>

theorem movePointRef_counterexample:
  "points_to (caller_state \<lparr>x = 2147483647, y = 0\<rparr>) 1 \<lparr>x = 2147483647, y = 0\<rparr>
   \<and> fst (movePointRef 1 (caller_state \<lparr>x = 2147483647, y = 0\<rparr>)) = Inl SignedOverflow"
  by (simp add: movePointRef_def incr_x_def incr_y_def incr_def points_to_def printf_def
      monad_defs mem_defs caller_state_def NULL_def INT_MAX_def)

text \<open>
  Claim C6, amended. For every point \<open>p\<close> with both fields below \<open>INT_MAX\<close>, held in live
  storage at \<open>a\<close>: \<open>movePointRef a\<close> returns, the storage at \<open>a\<close> then holds
  \<open>(x + 1, y + 1)\<close>, and nothing else of the caller's state has changed: every other
  address, the owner of the storage at \<open>a\<close>, the counter and the allocator are as
  before; the standard output has the two messages appended.
\<close>

theorem movePointRef_ok:
  assumes "points_to s a p" and "sint (x p) < INT_MAX" and "sint (y p) < INT_MAX"
  shows "fst (movePointRef a s) = Inr ()
    \<and> points_to (snd (movePointRef a s)) a \<lparr>x = x p + 1, y = y p + 1\<rparr>
    \<and> sint (x p + 1) = sint (x p) + 1 \<and> sint (y p + 1) = sint (y p) + 1
    \<and> (\<forall>a'. a' \<noteq> a \<longrightarrow> heap (snd (movePointRef a s)) a' = heap s a')
    \<and> map_option origin (heap (snd (movePointRef a s)) a) = map_option origin (heap s a)
    \<and> counter (snd (movePointRef a s)) = counter s
    \<and> allocator (snd (movePointRef a s)) = allocator s
    \<and> stdout (snd (movePointRef a s)) = stdout s @
          [(fmt_point, [D (x p), D (y p)]), (fmt_new_point, [D (x p + 1), D (y p + 1)])]"
  using assms sint_succ [of "x p"] sint_succ [of "y p"]
  by (auto simp add: movePointRef_def incr_x_def incr_y_def incr_def points_to_def printf_def
      monad_defs mem_defs split: option.splits)

theorem movePointRef_ok_witness:
  "points_to (caller_state \<lparr>x = 3, y = 4\<rparr>) 1 \<lparr>x = 3, y = 4\<rparr>
   \<and> sint (x \<lparr>x = 3, y = 4\<rparr>) < INT_MAX \<and> sint (y \<lparr>x = 3, y = 4\<rparr>) < INT_MAX
   \<and> fst (movePointRef 1 (caller_state \<lparr>x = 3, y = 4\<rparr>)) = Inr ()
   \<and> points_to (snd (movePointRef 1 (caller_state \<lparr>x = 3, y = 4\<rparr>))) 1 \<lparr>x = 4, y = 5\<rparr>"
proof -
  have h1: "points_to (caller_state \<lparr>x = 3, y = 4\<rparr>) 1 \<lparr>x = 3, y = 4\<rparr>"
    by (simp add: points_to_def caller_state_def NULL_def)
  have h2: "sint (x \<lparr>x = 3, y = 4\<rparr>) < INT_MAX"
    by (simp add: INT_MAX_def)
  have h3: "sint (y \<lparr>x = 3, y = 4\<rparr>) < INT_MAX"
    by (simp add: INT_MAX_def)
  from movePointRef_ok [OF h1 h2 h3] h1 h2 h3 show ?thesis
    by simp
qed

text \<open>
  Claim C7. With \<open>original_string\<close> equal to "staring string", copied into a buffer by
  \<open>create_string_buffer\<close> and passed to \<open>add_one_to_string\<close>: the call returns
  normally, the buffer then holds the original bytes each incremented by one, followed by
  the terminating zero, so that its value is "tubsjoh!tusjoh"; and \<open>original_string\<close>
  is still "staring string".
\<close>

theorem call_with_buffer_increments:
  assumes "original_string h = ''staring string''"
  shows "fst (call_with_buffer h) = Inr ()
    \<and> mutable_string (snd (call_with_buffer h))
        = map (\<lambda>b. b + 1) (encode ''staring string'') @ [0]
    \<and> buffer_value (mutable_string (snd (call_with_buffer h))) = encode ''tubsjoh!tusjoh''
    \<and> original_string (snd (call_with_buffer h)) = ''staring string''
    \<and> other_memory (snd (call_with_buffer h)) = other_memory h"
proof -
  have run: "add_one_to_string (create_string_buffer (encode ''staring string''))
      = (Inr (), map (\<lambda>b. b + 1) (encode ''staring string'') @ [0])"
    by (simp add: add_one_to_string_def create_string_buffer_def encode_def INT_MAX_def
        add_one_loop.simps)
  have val: "buffer_value (map (\<lambda>b. b + 1) (encode ''staring string'') @ [0])
      = encode ''tubsjoh!tusjoh''"
    by (simp add: buffer_value_def encode_def)
  from assms show ?thesis
    by (simp add: call_with_buffer_def run val)
qed

theorem call_with_buffer_increments_witness:
  "original_string example_host = ''staring string''
   \<and> fst (call_with_buffer example_host) = Inr ()
   \<and> buffer_value (mutable_string (snd (call_with_buffer example_host)))
       = [116, 117, 98, 115, 106, 111, 104, 33, 116, 117, 115, 106, 111, 104]
   \<and> original_string (snd (call_with_buffer example_host)) = ''staring string''"
proof -
  have h: "original_string example_host = ''staring string''"
    by (simp add: example_host_def)
  have bytes: "encode ''tubsjoh!tusjoh''
      = [116, 117, 98, 115, 106, 111, 104, 33, 116, 117, 115, 106, 111, 104]"
    by (simp add: encode_def)
  note incremented = call_with_buffer_increments [OF h]
  from incremented have returned: "fst (call_with_buffer example_host) = Inr ()"
    by blast
  from incremented have "buffer_value (mutable_string (snd (call_with_buffer example_host)))
      = encode ''tubsjoh!tusjoh''"
    by blast
  with bytes have val: "buffer_value (mutable_string (snd (call_with_buffer example_host)))
       = [116, 117, 98, 115, 106, 111, 104, 33, 116, 117, 115, 106, 111, 104]"
    by simp
  from incremented have kept: "original_string (snd (call_with_buffer example_host))
      = ''staring string''"
    by blast
  from h returned val kept show ?thesis
    by blast
qed

text \<open>
  Claim C8. For every point \<open>p\<close> held in live storage at \<open>a\<close>, \<open>showPointRef a\<close> and
  \<open>showPoint p\<close> are the same computation: they return normally with the same message,
  carrying the coordinates of \<open>p\<close>, appended to the standard output. Neither changes the
  store, the counter or the allocator, on any input: nothing is mutated and nothing is
  allocated.
\<close>

theorem show_agree:
  "(points_to s a p \<longrightarrow> showPointRef a s = showPoint p s)
   \<and> fst (showPoint p s) = Inr ()
   \<and> stdout (snd (showPoint p s)) = stdout s @ [(fmt_point, [D (x p), D (y p)])]
   \<and> same_memory s (snd (showPoint p s))
   \<and> same_memory s (snd (showPointRef a s))"
  by (simp add: showPoint_def showPointRef_def same_memory_def printf_def monad_defs
      mem_defs points_to_def split: option.splits)

theorem show_agree_witness:
  "points_to (caller_state \<lparr>x = 3, y = 4\<rparr>) 1 \<lparr>x = 3, y = 4\<rparr>
   \<and> showPointRef 1 (caller_state \<lparr>x = 3, y = 4\<rparr>)
       = showPoint \<lparr>x = 3, y = 4\<rparr> (caller_state \<lparr>x = 3, y = 4\<rparr>)
   \<and> stdout (snd (showPointRef 1 (caller_state \<lparr>x = 3, y = 4\<rparr>))) = [(fmt_point, [D 3, D 4])]"
proof -
  have h: "points_to (caller_state \<lparr>x = 3, y = 4\<rparr>) 1 \<lparr>x = 3, y = 4\<rparr>"
    by (simp add: points_to_def caller_state_def NULL_def)
  have out: "stdout (caller_state \<lparr>x = 3, y = 4\<rparr>) = []"
    by (simp add: caller_state_def)
  from show_agree [of "caller_state \<lparr>x = 3, y = 4\<rparr>" 1 "\<lparr>x = 3, y = 4\<rparr>"] h
  show ?thesis
    by (simp add: out)
qed

text \<open>
  Claim C9. \<open>freePointPointer\<close> reads both fields through its argument before it frees.
  With a null pointer it stops at the first read with \<open>NullDereference\<close>, where
  \<open>free\<close> itself with a null pointer returns and does nothing. In general, when the
  argument is not the address of live storage with both fields written, the call stops
  at a read, before anything is printed or freed; so a call that returns normally had
  such an argument.
\<close>

theorem freePointPointer_reads_first:
  "freePointPointer NULL s = (Inl NullDereference, s)
   \<and> free NULL s = (Inr (), s)
   \<and> (\<not> readable s a \<longrightarrow>
        snd (freePointPointer a s) = s
        \<and> fst (freePointPointer a s)
            \<in> Inl ` {NullDereference, WildPointer, UseAfterFree, UninitialisedRead})
   \<and> (fst (freePointPointer a s) = Inr () \<longrightarrow> readable s a)"
  by (auto simp add: freePointPointer_def free_def readable_def printf_def monad_defs
      mem_defs split: option.splits if_splits)

theorem freePointPointer_reads_first_witness:
  "\<not> readable (initial_state [5]) 3
   \<and> freePointPointer 3 (initial_state [5]) = (Inl WildPointer, initial_state [5])
   \<and> fst (freePointPointer 5 (snd (getPointPointer (initial_state [5])))) = Inr ()
   \<and> readable (snd (getPointPointer (initial_state [5]))) 5
   \<and> freePointPointer NULL (initial_state [5]) = (Inl NullDereference, initial_state [5])"
proof -
  have h1: "\<not> readable (initial_state [5]) 3"
    by (simp add: readable_def initial_state_def)
  have wild: "fst (freePointPointer 3 (initial_state [5])) = Inl WildPointer"
    by (simp add: freePointPointer_def monad_defs mem_defs NULL_def initial_state_def)
  have h2: "fst (freePointPointer 5 (snd (getPointPointer (initial_state [5])))) = Inr ()"
    by (simp add: freePointPointer_def free_def getPointPointer_def malloc_def
        counter_postinc_def printf_def monad_defs mem_defs NULL_def initial_state_def
        INT_MAX_def)
  from freePointPointer_reads_first [of "initial_state [5]" 3] h1 wild
  have a: "freePointPointer 3 (initial_state [5]) = (Inl WildPointer, initial_state [5])"
    by (simp add: prod_eq_iff)
  from freePointPointer_reads_first [of "snd (getPointPointer (initial_state [5]))" 5] h2
  have b: "readable (snd (getPointPointer (initial_state [5]))) 5"
    by simp
  from freePointPointer_reads_first [of "initial_state [5]" 3]
  have c: "freePointPointer NULL (initial_state [5]) = (Inl NullDereference, initial_state [5])"
    by simp
  from h1 a h2 b c show ?thesis
    by simp
qed

text \<open>
  Claim C10. \<open>add_one_to_string\<close> changes only bytes strictly before the first zero byte
  of its buffer: with the first zero byte at index \<open>n\<close>, the bytes from \<open>n\<close> on are
  the same after the call, the byte at \<open>n\<close> is still zero, and the buffer has the same
  length. On a buffer without a zero byte the call stops at the first \<open>strlen\<close> with
  the buffer untouched.
\<close>

theorem add_one_to_string_frame:
  "length (snd (add_one_to_string input)) = length input
   \<and> (\<forall>n. strlen input = Some n \<longrightarrow>
         drop n (snd (add_one_to_string input)) = drop n input
         \<and> snd (add_one_to_string input) ! n = 0)
   \<and> (strlen input = None \<longrightarrow> add_one_to_string input = (Inl ReadPastEnd, input))"
proof -
  have none: "strlen input = None \<Longrightarrow> add_one_to_string input = (Inl ReadPastEnd, input)"
    by (simp add: add_one_to_string_def add_one_loop.simps [of 0 input])
  have some: "drop n (snd (add_one_to_string input)) = drop n input
       \<and> snd (add_one_to_string input) ! n = 0
       \<and> length (snd (add_one_to_string input)) = length input"
    if len: "strlen input = Some n" for n
  proof -
    from add_one_loop_frame [OF len, of 0]
    have d: "drop n (snd (add_one_to_string input)) = drop n input"
      and l: "length (snd (add_one_to_string input)) = length input"
      by (simp_all add: add_one_to_string_def)
    from len have n: "n < length input" "input ! n = 0"
      by (simp_all add: strlen_Some_iff)
    have "snd (add_one_to_string input) ! n = hd (drop n (snd (add_one_to_string input)))"
      using n(1) l by (simp add: hd_drop_conv_nth)
    also have "\<dots> = input ! n"
      using n(1) by (simp add: d hd_drop_conv_nth)
    finally show ?thesis using d l n(2) by simp
  qed
  show ?thesis
  proof (cases "strlen input")
    case None
    with none show ?thesis by simp
  next
    case (Some n)
    with some [OF Some] show ?thesis by simp
  qed
qed

theorem add_one_to_string_frame_witness:
  "strlen [97, 98, 0, 99, 100, 0] = Some 2
   \<and> drop 2 (snd (add_one_to_string [97, 98, 0, 99, 100, 0])) = [0, 99, 100, 0]
   \<and> strlen [97, 98] = None
   \<and> add_one_to_string [97, 98] = (Inl ReadPastEnd, [97, 98])"
proof -
  have h1: "strlen [97, 98, 0, 99, 100, 0] = Some 2"
    by simp
  have h2: "strlen [97, 98] = None"
    by simp
  have rest: "drop 2 [97, 98, 0, 99, 100, 0 :: byte] = [0, 99, 100, 0]"
    by simp
  from add_one_to_string_frame [of "[97, 98, 0, 99, 100, 0]"] h1
  have "drop 2 (snd (add_one_to_string [97, 98, 0, 99, 100, 0]))
      = drop 2 [97, 98, 0, 99, 100, 0]"
    by blast
  then have a: "drop 2 (snd (add_one_to_string [97, 98, 0, 99, 100, 0])) = [0, 99, 100, 0]"
    by (simp only: rest)
  from add_one_to_string_frame [of "[97, 98]"] h2
  have b: "add_one_to_string [97, 98] = (Inl ReadPastEnd, [97, 98])"
    by blast
  from h1 a h2 b show ?thesis
    by blast
qed

end
